theory Spec2Isabelle
  imports Complex_Main "HOL-Library.Char_ord" "HOL-Library.List_Lexorder"
begin

section \<open>Data model\<close>

text \<open>
  An embedding of \<^verbatim>\<open>tensorboard_plotter/plot.py\<close>. Scalar values are Python floats in the
  source; they are idealised here as real numbers, so rounding and overflow are not modelled.
  The smoothing strength given by the user and the opacity of a drawn line are both called
  alpha in the source; the line's opacity is the field \<open>line_alpha\<close> below.
\<close>

text \<open>The exceptions the modelled code can raise. \<open>NonFiniteValue\<close> is not a Python
  exception: it marks a division by zero inside the smoothing recurrence, where floating
  point would produce an infinity or a NaN.\<close>

datatype error =
    FileNotFoundError
  | NotADirectoryError
  | KeyError
  | ValueError
  | IndexError
  | NonFiniteValue

text \<open>One scalar event; a data frame with the columns wall\_time, step and value is the list
  of its rows, and the empty data frame is the empty list.\<close>

record sample =
  wall_time :: real
  step :: int
  value_col :: real

type_synonym dataframe = "sample list"

text \<open>The constructor arguments of \<open>TensorBoardPlotter\<close> that the computation reads.\<close>

record plotter =
  x_axis :: string
  metric :: string
  alpha :: real
  plot_mean_only :: bool

text \<open>The directory tree under \<open>log_dir\<close>. A run directory is represented by what its event
  accumulator holds after \<open>Reload\<close>: the scalar tags with their events. A plain file carries
  its text (only \<open>folder_alias.txt\<close> is ever read).\<close>

datatype run_node = RFile string | RDir "(string \<times> sample list) list"

datatype version_node = VFile | VDir "(string \<times> run_node) list"

datatype log_root = Missing | NotDir | Dir "(string \<times> version_node) list"

section \<open>Smoothing\<close>

text \<open>
  Modelled from the spec: the smoothing routine itself, \<^verbatim>\<open>Series.ewm(alpha=alpha_i).mean()\<close>,
  is library code outside the repository. Section 4.1 of the specification describes it as
  the recursive exponentially weighted average adjusted for finite history, with decay
  factors outside the half-open interval from 0 to 1 being a contract violation. The
  recurrence keeps the running average \<open>weighted\<close> and the total weight \<open>old_wt\<close> of the
  samples seen so far: each step decays the old weight by \<open>1 - a\<close> and gives the new sample
  weight 1. The library rejects a decay factor outside the interval with a \<open>ValueError\<close>.
\<close>

fun ewm_loop :: "real \<Rightarrow> real \<Rightarrow> real \<Rightarrow> real list \<Rightarrow> error + real list" where
  "ewm_loop a weighted old_wt [] = Inr []"
| "ewm_loop a weighted old_wt (cur # rest) =
     (let old_wt' = old_wt * (1 - a) in
      if old_wt' + 1 = 0 then Inl NonFiniteValue
      else
        let weighted' = (old_wt' * weighted + 1 * cur) / (old_wt' + 1) in
        (case ewm_loop a weighted' (old_wt' + 1) rest of
           Inl e \<Rightarrow> Inl e
         | Inr out \<Rightarrow> Inr (weighted' # out)))"

definition ewm_mean :: "real \<Rightarrow> real list \<Rightarrow> error + real list" where
  "ewm_mean a vals =
     (if a \<le> 0 \<or> 1 < a then Inl ValueError
      else (case vals of
              [] \<Rightarrow> Inr []
            | v # rest \<Rightarrow>
                (case ewm_loop a v 1 rest of
                   Inl e \<Rightarrow> Inl e
                 | Inr out \<Rightarrow> Inr (v # out))))"

text \<open>The closed form of section 4.1, in the specification's own words:
  \<open>smoothed[i] = (\<Sum>k=0..i. (1-d)^(i-k) * value[k]) / (\<Sum>k=0..i. (1-d)^(i-k))\<close>.\<close>

definition ewm_closed :: "real \<Rightarrow> real list \<Rightarrow> nat \<Rightarrow> real" where
  "ewm_closed d vals i =
     (\<Sum>k\<leftarrow>[0..<Suc i]. (1 - d) ^ (i - k) * vals ! k) / (\<Sum>k\<leftarrow>[0..<Suc i]. (1 - d) ^ (i - k))"

text \<open>\<open>plot\<close>, lines 311-314: the user's alpha is inverted, and an inverted value of exactly
  zero is replaced by \<open>1e-4\<close>. The subtraction is exact here and rounded to double precision
  in the source. Whether the result lies in the half-open interval from 0 to 1 is the same
  in both for an alpha from 0 to 1, for an alpha above 1 and for an alpha of at most
  \<open>-2^-52\<close>; for a negative alpha nearer to zero the rounded result can be exactly 1, and
  nothing is stated about such an alpha.\<close>

definition invert_alpha :: "real \<Rightarrow> real" where
  "invert_alpha user_alpha =
     (let alpha_i = 1 - user_alpha in if alpha_i = 0 then 1 / 10000 else alpha_i)"

text \<open>\<open>_extract_and_smooth_metrics\<close>: a run without the metric gives the empty frame;
  otherwise the value column is replaced by its smoothed version. A frame built from no
  events has no columns, so reading its value column raises \<open>KeyError\<close>.\<close>

definition extract_and_smooth_metrics ::
    "plotter \<Rightarrow> (string \<times> sample list) list \<Rightarrow> real \<Rightarrow> error + dataframe" where
  "extract_and_smooth_metrics p ea alpha_i =
     (case map_of ea (metric p) of
        None \<Rightarrow> Inr []
      | Some scalar_data \<Rightarrow>
          if scalar_data = [] then Inl KeyError
          else (case ewm_mean alpha_i (map value_col scalar_data) of
                  Inl e \<Rightarrow> Inl e
                | Inr smoothed \<Rightarrow>
                    Inr (map (\<lambda>(s, v). s\<lparr>value_col := v\<rparr>) (zip scalar_data smoothed))))"

text \<open>The raw series of a run for the configured metric: empty when the metric is absent.\<close>

definition raw_series :: "plotter \<Rightarrow> (string \<times> sample list) list \<Rightarrow> sample list" where
  "raw_series p ea = (case map_of ea (metric p) of None \<Rightarrow> [] | Some scalar_data \<Rightarrow> scalar_data)"

section \<open>Collecting the versions\<close>

text \<open>\<open>str.strip\<close> on the text of the alias file, for the ASCII white space characters
  (tab, line feed, vertical tab, form feed, carriage return, the four separators 28-31 and
  the space).\<close>

definition is_space :: "char \<Rightarrow> bool" where
  "is_space c = ((of_char c :: nat) \<in> {9, 10, 11, 12, 13, 28, 29, 30, 31, 32})"

definition strip :: "string \<Rightarrow> string" where
  "strip s = rev (dropWhile is_space (rev (dropWhile is_space s)))"

text \<open>The alias of a version: the stripped text of \<open>folder_alias.txt\<close> when that entry is a
  file, the folder name otherwise.\<close>

definition read_alias :: "string \<Rightarrow> (string \<times> run_node) list \<Rightarrow> string" where
  "read_alias version_name entries =
     (case map_of entries ''folder_alias.txt'' of
        Some (RFile txt) \<Rightarrow> strip txt
      | _ \<Rightarrow> version_name)"

record version_data =
  vd_alias :: string
  run_dataframes :: "dataframe list"

text \<open>The inner loop of \<open>_collect_version_data\<close> over the sorted entries of a version:
  entries that are not directories are skipped, and a run is kept when its frame is not
  empty. The first exception ends the loop.\<close>

fun collect_runs :: "plotter \<Rightarrow> real \<Rightarrow> (string \<times> run_node) list \<Rightarrow> error + dataframe list" where
  "collect_runs p alpha_i [] = Inr []"
| "collect_runs p alpha_i ((run_dir, RFile txt) # rest) = collect_runs p alpha_i rest"
| "collect_runs p alpha_i ((run_dir, RDir ea) # rest) =
     (case extract_and_smooth_metrics p ea alpha_i of
        Inl e \<Rightarrow> Inl e
      | Inr df \<Rightarrow>
          (case collect_runs p alpha_i rest of
             Inl e \<Rightarrow> Inl e
           | Inr dfs \<Rightarrow> Inr (if df \<noteq> [] then df # dfs else dfs)))"

text \<open>The outer loop over the sorted entries of \<open>log_dir\<close>: every directory is a version and
  is kept, with or without runs.\<close>

fun collect_versions ::
    "plotter \<Rightarrow> real \<Rightarrow> (string \<times> version_node) list \<Rightarrow> error + version_data list" where
  "collect_versions p alpha_i [] = Inr []"
| "collect_versions p alpha_i ((version_name, VFile) # rest) = collect_versions p alpha_i rest"
| "collect_versions p alpha_i ((version_name, VDir entries) # rest) =
     (case collect_runs p alpha_i (sort_key fst entries) of
        Inl e \<Rightarrow> Inl e
      | Inr dfs \<Rightarrow>
          (case collect_versions p alpha_i rest of
             Inl e \<Rightarrow> Inl e
           | Inr vs \<Rightarrow>
               Inr (\<lparr>vd_alias = read_alias version_name entries, run_dataframes = dfs\<rparr> # vs)))"

text \<open>\<open>_collect_version_data\<close>: \<open>os.listdir\<close> raises when \<open>log_dir\<close> is missing or is not a
  directory.\<close>

definition collect_version_data ::
    "plotter \<Rightarrow> log_root \<Rightarrow> real \<Rightarrow> error + version_data list" where
  "collect_version_data p log_dir alpha_i =
     (case log_dir of
        Missing \<Rightarrow> Inl FileNotFoundError
      | NotDir \<Rightarrow> Inl NotADirectoryError
      | Dir entries \<Rightarrow> collect_versions p alpha_i (sort_key fst entries))"

section \<open>Drawing the versions\<close>

text \<open>A drawn line. The axes hold the lines in the order in which they were drawn, and a
  line handle is the position of the line in that list. A colour is its position in the
  colour cycle, which has ten entries by default.\<close>

record line2d =
  xdata :: "real list"
  ydata :: "real list"
  line_label :: string
  color :: nat
  line_alpha :: real
  linewidth :: real

definition n_colors :: nat where
  "n_colors = 10"

text \<open>\<open>df[name]\<close>: the column of that name, or \<open>KeyError\<close>.\<close>

definition column :: "string \<Rightarrow> dataframe \<Rightarrow> error + real list" where
  "column name df =
     (if name = ''wall_time'' then Inr (map wall_time df)
      else if name = ''step'' then Inr (map (\<lambda>s. real_of_int (step s)) df)
      else if name = ''value'' then Inr (map value_col df)
      else Inl KeyError)"

text \<open>The loop over the frames of one version (lines 196-214), with its accumulators
  \<open>runs_lines\<close>, \<open>all_runs_values\<close>, \<open>all_runs_x\<close> and the lines of the axes.\<close>

fun plot_runs ::
    "plotter \<Rightarrow> nat \<Rightarrow> dataframe list \<Rightarrow> nat list \<Rightarrow> real list list \<Rightarrow> real list list \<Rightarrow>
       line2d list \<Rightarrow> error + (nat list \<times> real list list \<times> real list list \<times> line2d list)" where
  "plot_runs p idx [] runs_lines all_runs_values all_runs_x ls =
     Inr (runs_lines, all_runs_values, all_runs_x, ls)"
| "plot_runs p idx (df # dfs) runs_lines all_runs_values all_runs_x ls =
     (let min_len = min (length df) (length (map value_col df)) in
      case column (x_axis p) df of
        Inl e \<Rightarrow> Inl e
      | Inr xcol \<Rightarrow>
          (let x = take min_len xcol;
               y = take min_len (map value_col df)
           in if \<not> plot_mean_only p
              then plot_runs p idx dfs (runs_lines @ [length ls])
                     (all_runs_values @ [y]) (all_runs_x @ [x])
                     (ls @ [\<lparr>xdata = x, ydata = y, line_label = [],
                              color = idx mod n_colors, line_alpha = 3 / 10, linewidth = 1\<rparr>])
              else plot_runs p idx dfs runs_lines
                     (all_runs_values @ [y]) (all_runs_x @ [x]) ls))"

text \<open>\<open>pd.concat(all_runs_values, axis=1).mean(axis=1)\<close>: the columns are joined on their
  row index, so the joined frame has as many rows as the longest column, with missing
  entries where a column is shorter; the row mean skips missing entries.\<close>

definition row_mean :: "real list list \<Rightarrow> nat \<Rightarrow> real" where
  "row_mean cols i =
     (let present = [c ! i. c \<leftarrow> cols, i < length c]
      in sum_list present / real (length present))"

definition concat_mean :: "real list list \<Rightarrow> real list" where
  "concat_mean cols = map (row_mean cols) [0..<foldr max (map length cols) 0]"

text \<open>Lines 221-227: the mean values, cut together with the x values of the last run to
  the shorter of the two.\<close>

definition mean_curve :: "real list list \<Rightarrow> real list list \<Rightarrow> real list \<times> real list" where
  "mean_curve all_runs_x all_runs_values =
     (let mean_values = concat_mean all_runs_values;
          min_len = min (length (last all_runs_x)) (length mean_values)
      in (take min_len (last all_runs_x), take min_len mean_values))"

text \<open>One round of the loop of \<open>_plot_versions\<close> over the versions. The state is
  \<open>(line_collections_main, line_collections_runs, legend_lines, lines of the axes)\<close>.\<close>

type_synonym collections = "nat list list \<times> nat list list \<times> nat list \<times> line2d list"

definition plot_version ::
    "plotter \<Rightarrow> nat \<Rightarrow> version_data \<Rightarrow> collections \<Rightarrow> error + collections" where
  "plot_version p idx vdata st =
     (case st of (line_collections_main, line_collections_runs, legend_lines, ls) \<Rightarrow>
        (case plot_runs p idx (run_dataframes vdata) [] [] [] ls of
           Inl e \<Rightarrow> Inl e
         | Inr (runs_lines, all_runs_values, all_runs_x, ls1) \<Rightarrow>
             (let runs' = line_collections_runs @ [if \<not> plot_mean_only p then runs_lines else []]
              in if length (run_dataframes vdata) > 0
                 then (case mean_curve all_runs_x all_runs_values of
                         (x_mean, y_mean) \<Rightarrow>
                           Inr (line_collections_main @ [[length ls1]], runs',
                                legend_lines @ [length ls1],
                                ls1 @ [\<lparr>xdata = x_mean, ydata = y_mean, line_label = vd_alias vdata,
                                        color = idx mod n_colors, line_alpha = 1, linewidth = 2\<rparr>]))
                 else Inr (line_collections_main @ [[]], runs', legend_lines, ls1))))"

fun plot_versions_from ::
    "plotter \<Rightarrow> nat \<Rightarrow> version_data list \<Rightarrow> collections \<Rightarrow> error + collections" where
  "plot_versions_from p idx [] st = Inr st"
| "plot_versions_from p idx (vdata # rest) st =
     (case plot_version p idx vdata st of
        Inl e \<Rightarrow> Inl e
      | Inr st' \<Rightarrow> plot_versions_from p (Suc idx) rest st')"

definition plot_versions :: "plotter \<Rightarrow> version_data list \<Rightarrow> error + collections" where
  "plot_versions p vds = plot_versions_from p 0 vds ([], [], [], [])"

section \<open>The legend click handler\<close>

text \<open>What the closure returned by \<open>get_on_legend_click\<close> captures. The lines themselves are
  the mutable state the handler works on.\<close>

record handler =
  legend_lines_labels :: "string list"
  line_collections_main :: "nat list list"
  line_collections_runs :: "nat list list"

text \<open>\<open>list.index\<close>: the first position of an element that is known to occur.\<close>

fun index_of :: "'a list \<Rightarrow> 'a \<Rightarrow> nat" where
  "index_of [] a = 0"
| "index_of (x # xs) a = (if x = a then 0 else Suc (index_of xs a))"

text \<open>\<open>for line in lines: line.set_alpha(0 if line.get_alpha() > 0 else shown)\<close>.\<close>

fun toggle_lines :: "real \<Rightarrow> nat list \<Rightarrow> line2d list \<Rightarrow> line2d list" where
  "toggle_lines shown [] ls = ls"
| "toggle_lines shown (h # hs) ls =
     toggle_lines shown hs
       (ls[h := (ls ! h)\<lparr>line_alpha := (if line_alpha (ls ! h) > 0 then 0 else shown)\<rparr>])"

definition on_legend_click :: "handler \<Rightarrow> string \<Rightarrow> line2d list \<Rightarrow> error + line2d list" where
  "on_legend_click h artist_label ls =
     (if artist_label \<in> set (legend_lines_labels h)
      then (let line_index = index_of (legend_lines_labels h) artist_label in
            if length (line_collections_main h) \<le> line_index then Inl IndexError
            else if line_collections_runs h \<noteq> [] \<and> length (line_collections_runs h) \<le> line_index
            then Inl IndexError
            else (let main_lines = line_collections_main h ! line_index;
                      run_lines = (if line_collections_runs h \<noteq> []
                                   then line_collections_runs h ! line_index else [])
                  in Inr (toggle_lines (3 / 10) run_lines (toggle_lines 1 main_lines ls))))
      else Inr ls)"

section \<open>The whole run\<close>

text \<open>\<open>plot\<close>, from the inversion of alpha to the making of the click handler: the data
  are collected before the figure is created, and the lines are drawn after. A failure
  carries the phase in which it was raised. The calls that follow in the source (axis
  labels, grid, title, legend, layout and \<open>plt.show\<close>) belong to the drawing library and are
  not modelled; a result \<open>Inr\<close> says that the collection of the data and the drawing of the
  lines by \<open>_plot_versions\<close> raised nothing.\<close>

datatype phase = Startup | Rendering

definition make_handler :: "collections \<Rightarrow> handler" where
  "make_handler st =
     (case st of (main, runs, legend_lines, ls) \<Rightarrow>
        \<lparr>legend_lines_labels = map (\<lambda>l. line_label (ls ! l)) legend_lines,
         line_collections_main = main,
         line_collections_runs = runs\<rparr>)"

definition plot :: "plotter \<Rightarrow> log_root \<Rightarrow> (phase \<times> error) + (handler \<times> line2d list)" where
  "plot p log_dir =
     (let alpha_i = invert_alpha (alpha p) in
      case collect_version_data p log_dir alpha_i of
        Inl e \<Rightarrow> Inl (Startup, e)
      | Inr version_data \<Rightarrow>
          (case plot_versions p version_data of
             Inl e \<Rightarrow> Inl (Rendering, e)
           | Inr st \<Rightarrow> Inr (make_handler st, snd (snd (snd st)))))"

section \<open>Predicates used to state the properties\<close>

text \<open>The handles kept for every version are distinct and point at lines of the axes, the
  mean line at full opacity and the run lines at opacity 0.3; there is a slot of handles for
  every version and at most one legend entry per version.\<close>

definition handles_ok :: "collections \<Rightarrow> bool" where
  "handles_ok st =
     (case st of (main, runs, legend, ls) \<Rightarrow>
        length runs = length main \<and> length legend \<le> length main \<and>
        (\<forall>i<length main.
           distinct (main ! i @ runs ! i) \<and>
           (\<forall>h\<in>set (main ! i). h < length ls \<and> line_alpha (ls ! h) = 1) \<and>
           (\<forall>h\<in>set (runs ! i). h < length ls \<and> line_alpha (ls ! h) = 3 / 10)))"








section \<open>Example inputs\<close>

text \<open>A plotter for the metric \<open>loss\<close> over the step axis, three scalar events, and a run
  directory that holds them.\<close>

definition ex_plotter :: plotter where
  "ex_plotter = \<lparr>x_axis = ''step'', metric = ''loss'', alpha = 1 / 2, plot_mean_only = False\<rparr>"

definition ex_events :: "sample list" where
  "ex_events =
     [\<lparr>wall_time = 10, step = 0, value_col = 1\<rparr>,
      \<lparr>wall_time = 11, step = 1, value_col = 2\<rparr>,
      \<lparr>wall_time = 12, step = 2, value_col = 4\<rparr>]"

definition ex_run :: "(string \<times> sample list) list" where
  "ex_run = [(''loss'', ex_events)]"

text \<open>A frame of \<open>n\<close> rows with the constant value \<open>v\<close>.\<close>

definition ex_frame :: "nat \<Rightarrow> real \<Rightarrow> dataframe" where
  "ex_frame n v = map (\<lambda>i. \<lparr>wall_time = real i, step = int i, value_col = v\<rparr>) [0..<n]"

text \<open>A version whose three runs have 7, 5 and 9 rows, in that order.\<close>

definition ex_version_759 :: version_data where
  "ex_version_759 =
     \<lparr>vd_alias = ''v'', run_dataframes = [ex_frame 7 1, ex_frame 5 2, ex_frame 9 3]\<rparr>"

text \<open>A version whose two runs both have 3 rows.\<close>

definition ex_version_33 :: version_data where
  "ex_version_33 = \<lparr>vd_alias = ''w'', run_dataframes = [ex_frame 3 1, ex_frame 3 3]\<rparr>"

text \<open>One version with one run that holds the metric.\<close>

definition ex_entries_one :: "(string \<times> version_node) list" where
  "ex_entries_one = [(''v2'', VDir [(''run0'', RDir ex_run)])]"

definition ex_tree_one :: log_root where
  "ex_tree_one = Dir ex_entries_one"




text \<open>Two versions: \<open>v1\<close>, whose only run logs another metric, and \<open>v2\<close>, whose run holds the
  metric. The listing is not sorted.\<close>

definition ex_tree_gap :: log_root where
  "ex_tree_gap =
     Dir [(''v2'', VDir [(''run0'', RDir ex_run)]),
          (''v1'', VDir [(''run0'', RDir [(''acc'', ex_events)])])]"

text \<open>Four versions: \<open>v1\<close> without data, \<open>v2\<close> and \<open>v3\<close> with the same alias \<open>A\<close>, and \<open>v4\<close>
  with the alias \<open>B\<close>.\<close>

definition ex_tree_dup :: log_root where
  "ex_tree_dup =
     Dir [(''v1'', VDir [(''run0'', RDir [(''acc'', ex_events)])]),
          (''v2'', VDir [(''folder_alias.txt'', RFile ''A''), (''run0'', RDir ex_run)]),
          (''v3'', VDir [(''folder_alias.txt'', RFile ''A''), (''run0'', RDir ex_run)]),
          (''v4'', VDir [(''folder_alias.txt'', RFile ''B''), (''run0'', RDir ex_run)])]"

section \<open>Properties of the smoothing step\<close>

lemma upt_Suc_Suc_shift: "[0..<Suc (Suc j)] = 0 # map Suc [0..<Suc j]"
  by (metis map_Suc_upt upt_conv_Cons zero_less_Suc)

lemma wsum_shift:
  fixes q :: real
  shows "(\<Sum>k\<leftarrow>[0..<Suc (Suc j)]. q ^ (Suc j - k) * (c # r) ! k)
       = q ^ Suc j * c + (\<Sum>k\<leftarrow>[0..<Suc j]. q ^ (j - k) * r ! k)"
  unfolding upt_Suc_Suc_shift by (simp add: comp_def del: upt_Suc)

lemma wden_shift:
  fixes q :: real
  shows "(\<Sum>k\<leftarrow>[0..<Suc (Suc j)]. q ^ (Suc j - k))
       = q ^ Suc j + (\<Sum>k\<leftarrow>[0..<Suc j]. q ^ (j - k))"
  unfolding upt_Suc_Suc_shift by (simp add: comp_def del: upt_Suc)

text \<open>The loop started with average \<open>w\<close> of total weight \<open>W\<close> never divides by zero, and its
  output at position \<open>j\<close> is the weighted average of the start state and the samples up to
  \<open>j\<close>.\<close>

lemma ewm_loop_closed:
  assumes "a \<le> 1" "0 < W"
  shows "\<exists>out. ewm_loop a w W rest = Inr out \<and> length out = length rest \<and>
           (\<forall>j<length rest. out ! j =
              ((1 - a) ^ Suc j * (W * w) + (\<Sum>k\<leftarrow>[0..<Suc j]. (1 - a) ^ (j - k) * rest ! k))
              / ((1 - a) ^ Suc j * W + (\<Sum>k\<leftarrow>[0..<Suc j]. (1 - a) ^ (j - k))))"
  using assms
proof (induction rest arbitrary: w W)
  case Nil
  then show ?case by simp
next
  case (Cons cur rest)
  define q where "q = 1 - a"
  define W' where "W' = W * q"
  define w' where "w' = (W' * w + cur) / (W' + 1)"
  have q0: "0 \<le> q" using Cons.prems by (simp add: q_def)
  have W'0: "0 \<le> W'" using Cons.prems q0 by (simp add: W'_def)
  then have pos: "0 < W' + 1" by simp
  have ww: "(W' + 1) * w' = W' * w + cur" using pos by (simp add: w'_def)
  from Cons.IH[OF Cons.prems(1) pos, of w']
  obtain out where out: "ewm_loop a w' (W' + 1) rest = Inr out" "length out = length rest"
    and nth: "\<And>j. j < length rest \<Longrightarrow> out ! j =
              (q ^ Suc j * ((W' + 1) * w') + (\<Sum>k\<leftarrow>[0..<Suc j]. q ^ (j - k) * rest ! k))
              / (q ^ Suc j * (W' + 1) + (\<Sum>k\<leftarrow>[0..<Suc j]. q ^ (j - k)))"
    unfolding q_def by blast
  have run: "ewm_loop a w W (cur # rest) = Inr (w' # out)"
    using pos out(1) by (simp add: Let_def W'_def[symmetric] q_def[symmetric] w'_def[symmetric])
  have "(w' # out) ! j =
          (q ^ Suc j * (W * w) + (\<Sum>k\<leftarrow>[0..<Suc j]. q ^ (j - k) * (cur # rest) ! k))
          / (q ^ Suc j * W + (\<Sum>k\<leftarrow>[0..<Suc j]. q ^ (j - k)))"
    if "j < length (cur # rest)" for j
  proof (cases j)
    case 0
    then show ?thesis by (simp add: w'_def W'_def mult.commute)
  next
    case (Suc i)
    with that have i: "i < length rest" by simp
    have "(w' # out) ! j = out ! i" using Suc by simp
    also have "\<dots> = (q ^ Suc i * ((W' + 1) * w') + (\<Sum>k\<leftarrow>[0..<Suc i]. q ^ (i - k) * rest ! k))
              / (q ^ Suc i * (W' + 1) + (\<Sum>k\<leftarrow>[0..<Suc i]. q ^ (i - k)))"
      by (rule nth[OF i])
    also have "q ^ Suc i * ((W' + 1) * w') + (\<Sum>k\<leftarrow>[0..<Suc i]. q ^ (i - k) * rest ! k)
        = q ^ Suc (Suc i) * (W * w) + (\<Sum>k\<leftarrow>[0..<Suc (Suc i)]. q ^ (Suc i - k) * (cur # rest) ! k)"
      unfolding ww wsum_shift by (simp add: W'_def algebra_simps)
    also have "q ^ Suc i * (W' + 1) + (\<Sum>k\<leftarrow>[0..<Suc i]. q ^ (i - k))
        = q ^ Suc (Suc i) * W + (\<Sum>k\<leftarrow>[0..<Suc (Suc i)]. q ^ (Suc i - k))"
      unfolding wden_shift by (simp add: W'_def algebra_simps)
    finally show ?thesis using Suc by simp
  qed
  with run out(2) show ?case unfolding q_def by simp
qed

lemma ewm_mean_closed:
  assumes "0 < d" "d \<le> 1"
  shows "\<exists>out. ewm_mean d vals = Inr out \<and> length out = length vals \<and>
           (\<forall>i<length vals. out ! i = ewm_closed d vals i)"
proof (cases vals)
  case Nil
  then show ?thesis using assms by (simp add: ewm_mean_def)
next
  case (Cons v rest)
  from ewm_loop_closed[OF assms(2), of 1 v rest]
  obtain out where out: "ewm_loop d v 1 rest = Inr out" "length out = length rest"
    and nth: "\<And>j. j < length rest \<Longrightarrow> out ! j =
              ((1 - d) ^ Suc j * (1 * v) + (\<Sum>k\<leftarrow>[0..<Suc j]. (1 - d) ^ (j - k) * rest ! k))
              / ((1 - d) ^ Suc j * 1 + (\<Sum>k\<leftarrow>[0..<Suc j]. (1 - d) ^ (j - k)))"
    by auto
  have run: "ewm_mean d vals = Inr (v # out)"
    using assms out(1) Cons by (simp add: ewm_mean_def)
  have "(v # out) ! i = ewm_closed d (v # rest) i" if "i < length (v # rest)" for i
  proof (cases i)
    case 0
    then show ?thesis by (simp add: ewm_closed_def)
  next
    case (Suc j)
    with that have j: "j < length rest" by simp
    show ?thesis
      unfolding Suc ewm_closed_def wsum_shift wden_shift
      using nth[OF j] by simp
  qed
  with run out(2) Cons show ?thesis by simp
qed

lemma ewm_mean_length:
  assumes "ewm_mean d vals = Inr out"
  shows "length out = length vals"
proof -
  from assms have d: "0 < d" "d \<le> 1"
    by (auto simp: ewm_mean_def split: if_splits)
  from ewm_mean_closed[OF d, of vals] assms show ?thesis by auto
qed

text \<open>With decay factor 1 the old weight is wiped out at every step.\<close>

lemma ewm_loop_one: "ewm_loop 1 w W rest = Inr rest"
  by (induction rest arbitrary: w W) (simp_all add: Let_def)

lemma ewm_mean_one: "ewm_mean 1 vals = Inr vals"
  by (cases vals) (simp_all add: ewm_mean_def ewm_loop_one)

text \<open>Every step is a convex combination of the running average and the new sample.\<close>

lemma ewm_loop_bounds:
  assumes "a \<le> 1" "0 \<le> W" "lo \<le> w" "w \<le> hi" "\<forall>x\<in>set rest. lo \<le> x \<and> x \<le> hi"
    "ewm_loop a w W rest = Inr out"
  shows "\<forall>y\<in>set out. lo \<le> y \<and> y \<le> hi"
  using assms
proof (induction rest arbitrary: w W out)
  case Nil
  then show ?case by simp
next
  case (Cons cur rest)
  define W' where "W' = W * (1 - a)"
  define w' where "w' = (W' * w + cur) / (W' + 1)"
  have W'0: "0 \<le> W'" using Cons.prems by (simp add: W'_def)
  then have pos: "0 < W' + 1" by simp
  have cur: "lo \<le> cur" "cur \<le> hi" using Cons.prems(5) by auto
  have "(W' + 1) * lo \<le> W' * w + cur"
    using mult_left_mono[OF Cons.prems(3) W'0] cur by (simp add: algebra_simps)
  then have lo: "lo \<le> w'" using pos by (simp add: w'_def pos_le_divide_eq mult.commute)
  have "W' * w + cur \<le> (W' + 1) * hi"
    using mult_left_mono[OF Cons.prems(4) W'0] cur by (simp add: algebra_simps)
  then have hi: "w' \<le> hi" using pos by (simp add: w'_def pos_divide_le_eq mult.commute)
  from Cons.prems(6) pos obtain out' where
    out': "ewm_loop a w' (W' + 1) rest = Inr out'" "out = w' # out'"
    by (auto simp: Let_def W'_def[symmetric] w'_def[symmetric] split: sum.splits if_splits)
  have "\<forall>y\<in>set out'. lo \<le> y \<and> y \<le> hi"
    using Cons.IH[OF Cons.prems(1) _ lo hi _ out'(1)] pos Cons.prems(5) by simp
  with lo hi out'(2) show ?case by simp
qed

lemma ewm_mean_bounds:
  assumes "ewm_mean d vals = Inr out" "\<forall>x\<in>set vals. lo \<le> x \<and> x \<le> hi"
  shows "\<forall>y\<in>set out. lo \<le> y \<and> y \<le> hi"
proof (cases vals)
  case Nil
  with assms show ?thesis by (auto simp: ewm_mean_def split: if_splits)
next
  case (Cons v rest)
  from assms(1) have d: "d \<le> 1" by (auto simp: ewm_mean_def split: if_splits)
  from assms(1) Cons obtain out' where
    out': "ewm_loop d v 1 rest = Inr out'" "out = v # out'"
    by (auto simp: ewm_mean_def split: if_splits sum.splits)
  have "\<forall>y\<in>set out'. lo \<le> y \<and> y \<le> hi"
    using ewm_loop_bounds[OF d _ _ _ _ out'(1), of lo hi] assms(2) Cons by simp
  with out'(2) assms(2) Cons show ?thesis by simp
qed

lemma invert_alpha_range:
  assumes "0 \<le> u" "u \<le> 1"
  shows "0 < invert_alpha u \<and> invert_alpha u \<le> 1"
  using assms by (simp add: invert_alpha_def Let_def)

text \<open>When the smoothing succeeds on a run that holds the metric, the frame is the raw
  frame with the value column replaced position by position.\<close>

lemma extract_rows:
  assumes "map_of ea (metric p) = Some raw" "raw \<noteq> []"
    "ewm_mean d (map value_col raw) = Inr sm"
  shows "extract_and_smooth_metrics p ea d = Inr (map (\<lambda>(s, v). s\<lparr>value_col := v\<rparr>) (zip raw sm))"
    and "length (map (\<lambda>(s, v). s\<lparr>value_col := v\<rparr>) (zip raw sm)) = length raw"
    and "i < length raw \<Longrightarrow>
           map (\<lambda>(s, v). s\<lparr>value_col := v\<rparr>) (zip raw sm) ! i = (raw ! i)\<lparr>value_col := sm ! i\<rparr>"
proof -
  have len: "length sm = length raw" using ewm_mean_length[OF assms(3)] by simp
  show "extract_and_smooth_metrics p ea d = Inr (map (\<lambda>(s, v). s\<lparr>value_col := v\<rparr>) (zip raw sm))"
    using assms by (simp add: extract_and_smooth_metrics_def)
  show "length (map (\<lambda>(s, v). s\<lparr>value_col := v\<rparr>) (zip raw sm)) = length raw"
    using len by simp
  show "i < length raw \<Longrightarrow>
           map (\<lambda>(s, v). s\<lparr>value_col := v\<rparr>) (zip raw sm) ! i = (raw ! i)\<lparr>value_col := sm ! i\<rparr>"
    using len by simp
qed

text \<open>
  C3. For a run that holds the metric with a non-empty raw series and a decay factor \<open>d\<close> with
  \<open>0 < d \<le> 1\<close>, the smoothing step returns a frame of the same length whose value at position
  0 is the raw value at position 0 and whose value at every position \<open>i\<close> is the closed form
  \<open>(\<Sum>k=0..i. (1-d)^(i-k) * value[k]) / (\<Sum>k=0..i. (1-d)^(i-k))\<close>; for the user's alpha 0 the
  decay factor is 1 and the frame is the raw frame.
\<close>

theorem smoothing_closed_form:
  assumes "0 < d" "d \<le> 1" "map_of ea (metric p) = Some raw" "raw \<noteq> []"
  shows "\<exists>df. extract_and_smooth_metrics p ea d = Inr df \<and> length df = length raw \<and>
           value_col (df ! 0) = value_col (raw ! 0) \<and>
           (\<forall>i<length raw. value_col (df ! i) = ewm_closed d (map value_col raw) i) \<and>
           invert_alpha 0 = 1 \<and> (d = 1 \<longrightarrow> df = raw)"
proof -
  from ewm_mean_closed[OF assms(1,2), of "map value_col raw"]
  obtain sm where sm: "ewm_mean d (map value_col raw) = Inr sm" "length sm = length raw"
    and closed: "\<And>i. i < length raw \<Longrightarrow> sm ! i = ewm_closed d (map value_col raw) i"
    by auto
  define df where "df = map (\<lambda>(s, v). s\<lparr>value_col := v\<rparr>) (zip raw sm)"
  note rows = extract_rows[OF assms(3,4) sm(1), folded df_def]
  have val: "value_col (df ! i) = sm ! i" if "i < length raw" for i
    using rows(3)[OF that] by simp
  have pos: "0 < length raw" using assms(4) by simp
  have "sm ! 0 = value_col (raw ! 0)"
    using closed[OF pos] pos by (simp add: ewm_closed_def)
  then have first: "value_col (df ! 0) = value_col (raw ! 0)"
    using val[OF pos] by simp
  have one: "df = raw" if "d = 1"
  proof -
    from sm(1) that have "sm = map value_col raw" by (simp add: ewm_mean_one)
    then show ?thesis
      unfolding df_def by (simp add: zip_map2 map_idI split_beta zip_same_conv_map comp_def)
  qed
  have "invert_alpha 0 = 1" by (simp add: invert_alpha_def)
  with rows(1,2) first val closed one show ?thesis by auto
qed

theorem smoothing_closed_form_witness:
  "(0::real) < 1 / 2 \<and> (1::real) / 2 \<le> 1 \<and>
   map_of ex_run (metric ex_plotter) = Some ex_events \<and> ex_events \<noteq> [] \<and>
   (\<exists>df. extract_and_smooth_metrics ex_plotter ex_run (1 / 2) = Inr df \<and>
      length df = length ex_events \<and>
      value_col (df ! 0) = value_col (ex_events ! 0) \<and>
      (\<forall>i<length ex_events. value_col (df ! i) = ewm_closed (1 / 2) (map value_col ex_events) i)) \<and>
   map value_col ex_events = [1, 2, 4] \<and>
   map (ewm_closed (1 / 2) (map value_col ex_events)) [0, 1, 2] = [1, 5 / 3, 3] \<and>
   extract_and_smooth_metrics ex_plotter ex_run 1 = Inr ex_events"
proof -
  have h: "map_of ex_run (metric ex_plotter) = Some ex_events" "ex_events \<noteq> []"
    by (simp_all add: ex_run_def ex_plotter_def ex_events_def)
  have v: "map value_col ex_events = [1, 2, 4]" by (simp add: ex_events_def)
  have c: "map (ewm_closed (1 / 2) (map value_col ex_events)) [0, 1, 2] = [1, 5 / 3, 3]"
    by code_simp
  from smoothing_closed_form[of 1 ex_run ex_plotter ex_events, OF _ _ h]
  have one: "extract_and_smooth_metrics ex_plotter ex_run 1 = Inr ex_events"
    by auto
  from smoothing_closed_form[of "1 / 2" ex_run ex_plotter ex_events, OF _ _ h] h v c one
  show ?thesis by auto
qed

text \<open>
  C8. For a user alpha between 0 and 1 and a run that holds the metric with a non-empty raw
  series, the smoothing step succeeds and every smoothed value lies between the least and
  the greatest raw value.
\<close>

theorem smoothing_bounds:
  assumes "0 \<le> alpha p" "alpha p \<le> 1" "map_of ea (metric p) = Some raw" "raw \<noteq> []"
  shows "\<exists>df. extract_and_smooth_metrics p ea (invert_alpha (alpha p)) = Inr df \<and>
           (\<forall>s\<in>set df. Min (value_col ` set raw) \<le> value_col s \<and>
                        value_col s \<le> Max (value_col ` set raw))"
proof -
  define d where "d = invert_alpha (alpha p)"
  have d: "0 < d" "d \<le> 1"
    using invert_alpha_range[OF assms(1,2)] by (simp_all add: d_def)
  from ewm_mean_closed[OF d, of "map value_col raw"]
  obtain sm where sm: "ewm_mean d (map value_col raw) = Inr sm" "length sm = length raw"
    by auto
  define df where "df = map (\<lambda>(s, v). s\<lparr>value_col := v\<rparr>) (zip raw sm)"
  note rows = extract_rows[OF assms(3,4) sm(1), folded df_def]
  have "\<forall>x\<in>set (map value_col raw).
          Min (value_col ` set raw) \<le> x \<and> x \<le> Max (value_col ` set raw)"
    by simp
  from ewm_mean_bounds[OF sm(1) this]
  have sm_bounds: "\<And>y. y \<in> set sm \<Longrightarrow>
          Min (value_col ` set raw) \<le> y \<and> y \<le> Max (value_col ` set raw)"
    by blast
  have "Min (value_col ` set raw) \<le> value_col s \<and> value_col s \<le> Max (value_col ` set raw)"
    if "s \<in> set df" for s
  proof -
    from that obtain i where i: "i < length df" "s = df ! i"
      by (auto simp: in_set_conv_nth)
    then have "i < length raw" using rows(2) by simp
    then have "value_col s = sm ! i" "sm ! i \<in> set sm"
      using rows(3)[of i] i(2) sm(2) by simp_all
    then show ?thesis using sm_bounds by simp
  qed
  with rows(1) show ?thesis unfolding d_def by blast
qed

theorem smoothing_bounds_witness:
  "0 \<le> alpha ex_plotter \<and> alpha ex_plotter \<le> 1 \<and>
   map_of ex_run (metric ex_plotter) = Some ex_events \<and> ex_events \<noteq> [] \<and>
   Min (value_col ` set ex_events) = 1 \<and> Max (value_col ` set ex_events) = 4 \<and>
   (\<exists>df. extract_and_smooth_metrics ex_plotter ex_run (invert_alpha (alpha ex_plotter)) = Inr df \<and>
      list_all (\<lambda>s. 1 \<le> value_col s \<and> value_col s \<le> 4) df)"
proof -
  have h: "0 \<le> alpha ex_plotter" "alpha ex_plotter \<le> 1"
    "map_of ex_run (metric ex_plotter) = Some ex_events" "ex_events \<noteq> []"
    by (simp_all add: ex_run_def ex_plotter_def ex_events_def)
  have m: "Min (value_col ` set ex_events) = 1" "Max (value_col ` set ex_events) = 4"
    by (simp_all add: ex_events_def)
  from smoothing_bounds[OF h] h m show ?thesis
    by (auto simp: list_all_iff)
qed

text \<open>
  C9. Whenever the smoothing step returns a frame for a run, the frame has exactly as many
  rows as the raw series of that run (none when the metric is absent), and its wall time
  and step columns are those of the raw series.
\<close>

theorem smoothing_preserves_length:
  assumes "extract_and_smooth_metrics p ea d = Inr df"
  shows "length df = length (raw_series p ea) \<and>
         map wall_time df = map wall_time (raw_series p ea) \<and>
         map step df = map step (raw_series p ea)"
proof (cases "map_of ea (metric p)")
  case None
  with assms show ?thesis
    by (simp add: extract_and_smooth_metrics_def raw_series_def)
next
  case (Some raw)
  with assms obtain sm where sm: "ewm_mean d (map value_col raw) = Inr sm"
    and df: "df = map (\<lambda>(s, v). s\<lparr>value_col := v\<rparr>) (zip raw sm)"
    by (auto simp: extract_and_smooth_metrics_def split: if_splits sum.splits)
  have len: "length sm = length raw" using ewm_mean_length[OF sm] by simp
  have "length df = length raw" using len df by simp
  moreover have "map wall_time df = map wall_time raw"
    unfolding df using len by (intro nth_equalityI) simp_all
  moreover have "map step df = map step raw"
    unfolding df using len by (intro nth_equalityI) simp_all
  ultimately show ?thesis using Some by (simp add: raw_series_def)
qed

theorem smoothing_preserves_length_witness:
  "(\<exists>df. extract_and_smooth_metrics ex_plotter ex_run (1 / 2) = Inr df \<and>
      length df = 3 \<and> length (raw_series ex_plotter ex_run) = 3 \<and>
      map step df = [0, 1, 2])"
proof -
  have run: "extract_and_smooth_metrics ex_plotter ex_run (1 / 2)
      = Inr [\<lparr>wall_time = 10, step = 0, value_col = 1\<rparr>,
             \<lparr>wall_time = 11, step = 1, value_col = 5 / 3\<rparr>,
             \<lparr>wall_time = 12, step = 2, value_col = 3\<rparr>]"
    by (simp add: extract_and_smooth_metrics_def ex_run_def ex_plotter_def ex_events_def
        ewm_mean_def)
  have raw: "raw_series ex_plotter ex_run = ex_events"
    by (simp add: raw_series_def ex_run_def ex_plotter_def)
  from smoothing_preserves_length[OF run] run raw show ?thesis
    by (simp add: ex_events_def)
qed



section \<open>Properties of the click handler\<close>

lemma toggle_lines_length: "length (toggle_lines shown hs ls) = length ls"
  by (induction hs arbitrary: ls) simp_all

lemma toggle_lines_nth:
  assumes "distinct hs" "k < length ls"
  shows "toggle_lines shown hs ls ! k =
           (if k \<in> set hs
            then (ls ! k)\<lparr>line_alpha := (if line_alpha (ls ! k) > 0 then 0 else shown)\<rparr>
            else ls ! k)"
  using assms
proof (induction hs arbitrary: ls)
  case Nil
  then show ?case by simp
next
  case (Cons h hs)
  define ls' where
    "ls' = ls[h := (ls ! h)\<lparr>line_alpha := (if line_alpha (ls ! h) > 0 then 0 else shown)\<rparr>]"
  have k: "k < length ls'" using Cons.prems by (simp add: ls'_def)
  have d: "distinct hs" "h \<notin> set hs" using Cons.prems by simp_all
  have "toggle_lines shown (h # hs) ls ! k = toggle_lines shown hs ls' ! k"
    by (simp add: ls'_def)
  also have "\<dots> = (if k \<in> set hs
            then (ls' ! k)\<lparr>line_alpha := (if line_alpha (ls' ! k) > 0 then 0 else shown)\<rparr>
            else ls' ! k)"
    by (rule Cons.IH[OF d(1) k])
  finally have step: "toggle_lines shown (h # hs) ls ! k = (if k \<in> set hs
            then (ls' ! k)\<lparr>line_alpha := (if line_alpha (ls' ! k) > 0 then 0 else shown)\<rparr>
            else ls' ! k)" .
  show ?case
  proof (cases "k = h")
    case True
    with d(2) have "k \<notin> set hs" by simp
    with step True Cons.prems(2) show ?thesis by (simp add: ls'_def)
  next
    case False
    then have "ls' ! k = ls ! k" by (simp add: ls'_def)
    with step False show ?thesis by simp
  qed
qed

lemma double_toggle:
  assumes "distinct (ms @ rs)"
    "\<forall>h\<in>set ms. h < length ls \<longrightarrow> line_alpha (ls ! h) = 1"
    "\<forall>h\<in>set rs. h < length ls \<longrightarrow> line_alpha (ls ! h) = 3 / 10"
  shows "toggle_lines (3 / 10) rs (toggle_lines 1 ms
           (toggle_lines (3 / 10) rs (toggle_lines 1 ms ls))) = ls"
proof (rule nth_equalityI)
  show "length (toggle_lines (3 / 10) rs (toggle_lines 1 ms
           (toggle_lines (3 / 10) rs (toggle_lines 1 ms ls)))) = length ls"
    by (simp add: toggle_lines_length)
next
  fix k
  assume "k < length (toggle_lines (3 / 10) rs (toggle_lines 1 ms
           (toggle_lines (3 / 10) rs (toggle_lines 1 ms ls))))"
  then have k: "k < length ls" by (simp add: toggle_lines_length)
  have d: "distinct ms" "distinct rs" "set ms \<inter> set rs = {}" using assms(1) by auto
  show "toggle_lines (3 / 10) rs (toggle_lines 1 ms
           (toggle_lines (3 / 10) rs (toggle_lines 1 ms ls))) ! k = ls ! k"
    using k d assms(2,3)
    by (auto simp: toggle_lines_nth toggle_lines_length)
qed

lemma plot_runs_shape:
  assumes "plot_runs p idx dfs rl vals xs ls = Inr (rl', vals', xs', ls')"
  shows "\<exists>new. ls' = ls @ new \<and> (\<forall>l\<in>set new. line_alpha l = 3 / 10) \<and>
           (\<not> plot_mean_only p \<longrightarrow> rl' = rl @ [length ls..<length ls + length new]) \<and>
           (plot_mean_only p \<longrightarrow> rl' = rl \<and> new = [])"
  using assms
proof (induction dfs arbitrary: rl vals xs ls)
  case Nil
  then show ?case by simp
next
  case (Cons df dfs)
  from Cons.prems obtain xcol where xcol: "column (x_axis p) df = Inr xcol"
    by (auto simp: Let_def split: sum.splits)
  show ?case
  proof (cases "plot_mean_only p")
    case True
    with Cons.prems xcol have
      "plot_runs p idx dfs rl (vals @ [take (length df) (map value_col df)])
         (xs @ [take (length df) xcol]) ls = Inr (rl', vals', xs', ls')"
      by (simp add: Let_def)
    from Cons.IH[OF this] True show ?thesis by simp
  next
    case False
    define l0 where "l0 = \<lparr>xdata = take (length df) xcol, ydata = take (length df) (map value_col df),
        line_label = [], color = idx mod n_colors, line_alpha = 3 / 10, linewidth = 1\<rparr>"
    from Cons.prems xcol False have
      "plot_runs p idx dfs (rl @ [length ls]) (vals @ [take (length df) (map value_col df)])
         (xs @ [take (length df) xcol]) (ls @ [l0]) = Inr (rl', vals', xs', ls')"
      by (simp add: Let_def l0_def)
    from Cons.IH[OF this] False obtain new where
      new: "ls' = (ls @ [l0]) @ new" "\<forall>l\<in>set new. line_alpha l = 3 / 10"
        "rl' = (rl @ [length ls]) @ [length (ls @ [l0])..<length (ls @ [l0]) + length new]"
      by blast
    have e: "[length ls..<length ls + Suc (length new)]
        = length ls # [Suc (length ls)..<Suc (length ls) + length new]"
      by (simp add: upt_conv_Cons del: upt_Suc)
    have "rl' = rl @ [length ls..<length ls + length (l0 # new)]"
      using new(3) e by (simp del: upt_Suc)
    moreover have "ls' = ls @ (l0 # new)" using new(1) by simp
    moreover have "\<forall>l\<in>set (l0 # new). line_alpha l = 3 / 10"
      using new(2) by (simp add: l0_def)
    ultimately show ?thesis using False by blast
  qed
qed

lemma plot_version_ok:
  assumes "handles_ok st" "plot_version p idx vd st = Inr st'"
  shows "handles_ok st'"
proof -
  obtain main runs legend ls where st: "st = (main, runs, legend, ls)"
    by (cases st) auto
  from assms(2) st obtain rl vals xs ls1 where
    pr: "plot_runs p idx (run_dataframes vd) [] [] [] ls = Inr (rl, vals, xs, ls1)"
    by (auto simp: plot_version_def split: sum.splits)
  from plot_runs_shape[OF pr] obtain new where
    new: "ls1 = ls @ new" "\<forall>l\<in>set new. line_alpha l = 3 / 10"
      "\<not> plot_mean_only p \<longrightarrow> rl = [length ls..<length ls + length new]"
      "plot_mean_only p \<longrightarrow> rl = [] \<and> new = []"
    by auto
  define rs where "rs = (if \<not> plot_mean_only p then rl else [])"
  have rs: "distinct rs" "\<forall>h\<in>set rs. length ls \<le> h \<and> h < length ls1"
    using new by (auto simp: rs_def)
  have rs_alpha: "\<forall>h\<in>set rs. line_alpha ((ls1 @ extra) ! h) = 3 / 10" for extra
    using new rs by (auto simp: rs_def nth_append)
  from assms(1) st have old:
    "length runs = length main" "length legend \<le> length main"
    "\<And>i. i < length main \<Longrightarrow> distinct (main ! i @ runs ! i) \<and>
           (\<forall>h\<in>set (main ! i). h < length ls \<and> line_alpha (ls ! h) = 1) \<and>
           (\<forall>h\<in>set (runs ! i). h < length ls \<and> line_alpha (ls ! h) = 3 / 10)"
    by (auto simp: handles_ok_def)
  show ?thesis
  proof (cases "length (run_dataframes vd) > 0")
    case True
    obtain x_mean y_mean where mc: "mean_curve xs vals = (x_mean, y_mean)"
      by (cases "mean_curve xs vals") auto
    define ml where "ml = \<lparr>xdata = x_mean, ydata = y_mean, line_label = vd_alias vd,
        color = idx mod n_colors, line_alpha = 1, linewidth = 2\<rparr>"
    from assms(2) st pr True mc have st':
      "st' = (main @ [[length ls1]], runs @ [rs], legend @ [length ls1], ls1 @ [ml])"
      by (simp add: plot_version_def Let_def rs_def ml_def)
    have "distinct ((main @ [[length ls1]]) ! i @ (runs @ [rs]) ! i) \<and>
           (\<forall>h\<in>set ((main @ [[length ls1]]) ! i).
               h < length (ls1 @ [ml]) \<and> line_alpha ((ls1 @ [ml]) ! h) = 1) \<and>
           (\<forall>h\<in>set ((runs @ [rs]) ! i).
               h < length (ls1 @ [ml]) \<and> line_alpha ((ls1 @ [ml]) ! h) = 3 / 10)"
      if "i < length (main @ [[length ls1]])" for i
    proof (cases "i < length main")
      case True
      with old(3)[OF True] old(1) new(1) show ?thesis
        by (auto simp: nth_append)
    next
      case False
      with that have "i = length main" by simp
      with old(1) rs rs_alpha[of "[ml]"] show ?thesis
        by (auto simp: nth_append ml_def)
    qed
    with old(1,2) show ?thesis unfolding st' handles_ok_def by simp
  next
    case False
    from assms(2) st pr False have st':
      "st' = (main @ [[]], runs @ [rs], legend, ls1)"
      by (simp add: plot_version_def Let_def rs_def)
    have "distinct ((main @ [[]]) ! i @ (runs @ [rs]) ! i) \<and>
           (\<forall>h\<in>set ((main @ [[]]) ! i). h < length ls1 \<and> line_alpha (ls1 ! h) = 1) \<and>
           (\<forall>h\<in>set ((runs @ [rs]) ! i). h < length ls1 \<and> line_alpha (ls1 ! h) = 3 / 10)"
      if "i < length (main @ [[]])" for i
    proof (cases "i < length main")
      case True
      with old(3)[OF True] old(1) new(1) show ?thesis
        by (auto simp: nth_append)
    next
      case False
      with that have "i = length main" by simp
      with old(1) rs rs_alpha[of "[]"] show ?thesis
        by (auto simp: nth_append)
    qed
    with old(1,2) show ?thesis unfolding st' handles_ok_def by simp
  qed
qed

lemma plot_versions_from_ok:
  assumes "handles_ok st" "plot_versions_from p idx vds st = Inr st'"
  shows "handles_ok st'"
  using assms
proof (induction vds arbitrary: idx st)
  case Nil
  then show ?case by simp
next
  case (Cons vd vds)
  from Cons.prems(2) obtain st1 where
    st1: "plot_version p idx vd st = Inr st1" "plot_versions_from p (Suc idx) vds st1 = Inr st'"
    by (auto split: sum.splits)
  from Cons.IH[OF plot_version_ok[OF Cons.prems(1) st1(1)] st1(2)] show ?case .
qed

lemma plot_versions_ok:
  assumes "plot_versions p vds = Inr st"
  shows "handles_ok st"
  using plot_versions_from_ok[OF _ assms[unfolded plot_versions_def]]
  by (simp add: handles_ok_def)

lemma index_of_less: "a \<in> set xs \<Longrightarrow> index_of xs a < length xs"
  by (induction xs) auto

lemma click_twice:
  assumes "handles_ok st" "lbl \<in> set (legend_lines_labels (make_handler st))"
  shows "\<exists>ls1. on_legend_click (make_handler st) lbl (snd (snd (snd st))) = Inr ls1 \<and>
               on_legend_click (make_handler st) lbl ls1 = Inr (snd (snd (snd st)))"
proof -
  obtain main runs legend ls where st: "st = (main, runs, legend, ls)"
    by (cases st) auto
  define h where "h = make_handler st"
  have hf: "legend_lines_labels h = map (\<lambda>l. line_label (ls ! l)) legend"
    "line_collections_main h = main" "line_collections_runs h = runs"
    by (simp_all add: h_def st make_handler_def)
  define i where "i = index_of (map (\<lambda>l. line_label (ls ! l)) legend) lbl"
  from assms(1) st have old:
    "length runs = length main" "length legend \<le> length main"
    "\<And>i. i < length main \<Longrightarrow> distinct (main ! i @ runs ! i) \<and>
           (\<forall>h\<in>set (main ! i). h < length ls \<and> line_alpha (ls ! h) = 1) \<and>
           (\<forall>h\<in>set (runs ! i). h < length ls \<and> line_alpha (ls ! h) = 3 / 10)"
    by (auto simp: handles_ok_def)
  have lbl: "lbl \<in> set (map (\<lambda>l. line_label (ls ! l)) legend)"
    using assms(2) hf(1) by (simp add: h_def)
  have "i < length (map (\<lambda>l. line_label (ls ! l)) legend)"
    unfolding i_def using lbl by (rule index_of_less)
  then have i: "i < length main" using old(2) by simp
  then have ne: "runs \<noteq> []" using old(1) by auto
  have click: "on_legend_click h lbl xs
      = Inr (toggle_lines (3 / 10) (runs ! i) (toggle_lines 1 (main ! i) xs))" for xs
    using lbl i ne old(1)
    by (simp add: on_legend_click_def Let_def hf i_def[symmetric] del: set_map)
  have "toggle_lines (3 / 10) (runs ! i) (toggle_lines 1 (main ! i)
           (toggle_lines (3 / 10) (runs ! i) (toggle_lines 1 (main ! i) ls))) = ls"
    using old(3)[OF i] by (intro double_toggle) auto
  then show ?thesis
    unfolding h_def[symmetric] by (simp add: click st)
qed

lemma plot_handles_ok:
  assumes "plot p log_dir = Inr (h, ls)"
  shows "\<exists>st. handles_ok st \<and> h = make_handler st \<and> ls = snd (snd (snd st))"
proof -
  from assms obtain vds st where
    "plot_versions p vds = Inr st" "h = make_handler st" "ls = snd (snd (snd st))"
    by (auto simp: plot_def Let_def split: sum.splits)
  with plot_versions_ok show ?thesis by blast
qed

text \<open>The drawings of the example trees.\<close>

lemma plot_ex_tree_one:
  "plot ex_plotter ex_tree_one =
     Inr (\<lparr>legend_lines_labels = [''v2''], line_collections_main = [[1]],
           line_collections_runs = [[0]]\<rparr>,
          [\<lparr>xdata = [0, 1, 2], ydata = [1, 5 / 3, 3], line_label = [], color = 0,
             line_alpha = 3 / 10, linewidth = 1\<rparr>,
           \<lparr>xdata = [0, 1, 2], ydata = [1, 5 / 3, 3], line_label = ''v2'', color = 0,
             line_alpha = 1, linewidth = 2\<rparr>])"
  by code_simp

lemma plot_ex_tree_gap:
  "plot ex_plotter ex_tree_gap =
     Inr (\<lparr>legend_lines_labels = [''v2''], line_collections_main = [[], [1]],
           line_collections_runs = [[], [0]]\<rparr>,
          [\<lparr>xdata = [0, 1, 2], ydata = [1, 5 / 3, 3], line_label = [], color = 1,
             line_alpha = 3 / 10, linewidth = 1\<rparr>,
           \<lparr>xdata = [0, 1, 2], ydata = [1, 5 / 3, 3], line_label = ''v2'', color = 1,
             line_alpha = 1, linewidth = 2\<rparr>])"
  by code_simp

lemma plot_ex_tree_dup:
  "plot ex_plotter ex_tree_dup =
     Inr (\<lparr>legend_lines_labels = [''A'', ''A'', ''B''],
           line_collections_main = [[], [1], [3], [5]],
           line_collections_runs = [[], [0], [2], [4]]\<rparr>,
          [\<lparr>xdata = [0, 1, 2], ydata = [1, 5 / 3, 3], line_label = [], color = 1,
             line_alpha = 3 / 10, linewidth = 1\<rparr>,
           \<lparr>xdata = [0, 1, 2], ydata = [1, 5 / 3, 3], line_label = ''A'', color = 1,
             line_alpha = 1, linewidth = 2\<rparr>,
           \<lparr>xdata = [0, 1, 2], ydata = [1, 5 / 3, 3], line_label = [], color = 2,
             line_alpha = 3 / 10, linewidth = 1\<rparr>,
           \<lparr>xdata = [0, 1, 2], ydata = [1, 5 / 3, 3], line_label = ''A'', color = 2,
             line_alpha = 1, linewidth = 2\<rparr>,
           \<lparr>xdata = [0, 1, 2], ydata = [1, 5 / 3, 3], line_label = [], color = 3,
             line_alpha = 3 / 10, linewidth = 1\<rparr>,
           \<lparr>xdata = [0, 1, 2], ydata = [1, 5 / 3, 3], line_label = ''B'', color = 3,
             line_alpha = 1, linewidth = 2\<rparr>])"
  by code_simp

text \<open>
  C6. After \<open>plot\<close> has drawn the figure (mean lines at opacity 1, run lines at opacity 0.3),
  two clicks in a row on the same legend label both succeed, and the second one gives back
  exactly the lines as they were before the first.
\<close>

theorem double_click_restores:
  assumes "plot p log_dir = Inr (h, ls)" "lbl \<in> set (legend_lines_labels h)"
  shows "\<exists>ls1. on_legend_click h lbl ls = Inr ls1 \<and> on_legend_click h lbl ls1 = Inr ls"
proof -
  from plot_handles_ok[OF assms(1)] obtain st where
    st: "handles_ok st" "h = make_handler st" "ls = snd (snd (snd st))"
    by blast
  from click_twice[OF st(1), of lbl] assms(2) st(2,3) show ?thesis by simp
qed

theorem double_click_restores_witness:
  "\<exists>h ls. plot ex_plotter ex_tree_one = Inr (h, ls) \<and> ''v2'' \<in> set (legend_lines_labels h) \<and>
     map line_alpha ls = [3 / 10, 1] \<and>
     (\<exists>ls1. on_legend_click h ''v2'' ls = Inr ls1 \<and> map line_alpha ls1 = [0, 0] \<and>
        on_legend_click h ''v2'' ls1 = Inr ls)"
proof -
  define h where "h = \<lparr>legend_lines_labels = [''v2''], line_collections_main = [[1]],
           line_collections_runs = [[0 :: nat]]\<rparr>"
  define ls where "ls = [\<lparr>xdata = [0, 1, 2], ydata = [1, 5 / 3, 3], line_label = [], color = 0,
             line_alpha = 3 / 10, linewidth = 1\<rparr>,
           \<lparr>xdata = [0, 1, 2], ydata = [1, 5 / 3, 3], line_label = ''v2'', color = 0,
             line_alpha = 1, linewidth = 2\<rparr>]"
  have p: "plot ex_plotter ex_tree_one = Inr (h, ls)"
    unfolding h_def ls_def by (rule plot_ex_tree_one)
  have l: "''v2'' \<in> set (legend_lines_labels h)" by (simp add: h_def)
  from double_click_restores[OF p l] obtain ls1 where
    c: "on_legend_click h ''v2'' ls = Inr ls1" "on_legend_click h ''v2'' ls1 = Inr ls"
    by blast
  have a0: "map line_alpha ls = [3 / 10, 1]" by (simp add: ls_def)
  have a1: "map line_alpha ls1 = [0, 0]"
    using c(1) by (auto simp: on_legend_click_def h_def ls_def)
  show ?thesis
  proof (intro exI conjI)
    show "plot ex_plotter ex_tree_one = Inr (h, ls)" by (rule p)
    show "''v2'' \<in> set (legend_lines_labels h)" by (rule l)
    show "map line_alpha ls = [3 / 10, 1]" by (rule a0)
    show "on_legend_click h ''v2'' ls = Inr ls1" by (rule c(1))
    show "map line_alpha ls1 = [0, 0]" by (rule a1)
    show "on_legend_click h ''v2'' ls1 = Inr ls" by (rule c(2))
  qed
qed

text \<open>
  C7. A click whose label is not one of the legend labels leaves every line as it is and
  raises nothing.
\<close>

theorem unmatched_click_ignored:
  assumes "lbl \<notin> set (legend_lines_labels h)"
  shows "on_legend_click h lbl ls = Inr ls"
  using assms by (simp add: on_legend_click_def)

theorem unmatched_click_ignored_witness:
  "\<exists>h ls. plot ex_plotter ex_tree_one = Inr (h, ls) \<and>
     ''nonexistent'' \<notin> set (legend_lines_labels h) \<and>
     on_legend_click h ''nonexistent'' ls = Inr ls"
proof -
  define h where "h = \<lparr>legend_lines_labels = [''v2''], line_collections_main = [[1]],
           line_collections_runs = [[0 :: nat]]\<rparr>"
  have l: "''nonexistent'' \<notin> set (legend_lines_labels h)" by (simp add: h_def)
  from unmatched_click_ignored[OF l] l plot_ex_tree_one show ?thesis
    unfolding h_def by blast
qed

text \<open>
  C2, at an input where the code departs from it. The version \<open>v1\<close> has no run with data and
  precedes \<open>v2\<close>. The legend has the single label \<open>v2\<close>, at position 0, while the lines of
  \<open>v2\<close> are kept at position 1 of the collections; a click on \<open>v2\<close> reads position 0, the
  empty slot of \<open>v1\<close>, and leaves the lines of \<open>v2\<close> (handles 0 and 1) as they are.
\<close>

theorem click_after_empty_version_toggles_nothing:
  "\<exists>h ls. plot ex_plotter ex_tree_gap = Inr (h, ls) \<and>
     legend_lines_labels h = [''v2''] \<and>
     line_collections_main h = [[], [1]] \<and> line_collections_runs h = [[], [0]] \<and>
     map line_label ls = [[], ''v2''] \<and> map line_alpha ls = [3 / 10, 1] \<and>
     on_legend_click h ''v2'' ls = Inr ls"
proof -
  have "on_legend_click \<lparr>legend_lines_labels = [''v2''], line_collections_main = [[], [1]],
           line_collections_runs = [[], [0]]\<rparr> ''v2'' ls = Inr ls" for ls
    by (simp add: on_legend_click_def)
  with plot_ex_tree_gap show ?thesis by simp
qed

text \<open>
  C10, at an input where the code departs from it. The versions \<open>v2\<close> and \<open>v3\<close> both carry the
  label \<open>A\<close>, and \<open>v1\<close>, which has no run with data, precedes them. A click on \<open>A\<close> toggles no
  line at all, and a click on \<open>B\<close> hides the lines of \<open>v3\<close> (handles 2 and 3), the later of the
  two versions labelled \<open>A\<close>, and leaves the lines of \<open>v4\<close> (handles 4 and 5) shown.
\<close>

theorem duplicate_label_later_version_toggled:
  "\<exists>h ls ls'. plot ex_plotter ex_tree_dup = Inr (h, ls) \<and>
     legend_lines_labels h = [''A'', ''A'', ''B''] \<and>
     line_collections_main h = [[], [1], [3], [5]] \<and>
     line_collections_runs h = [[], [0], [2], [4]] \<and>
     map line_label ls = [[], ''A'', [], ''A'', [], ''B''] \<and>
     map line_alpha ls = [3 / 10, 1, 3 / 10, 1, 3 / 10, 1] \<and>
     on_legend_click h ''A'' ls = Inr ls \<and>
     on_legend_click h ''B'' ls = Inr ls' \<and>
     map line_alpha ls' = [3 / 10, 1, 0, 0, 3 / 10, 1]"
proof -
  define h where "h = \<lparr>legend_lines_labels = [''A'', ''A'', ''B''],
           line_collections_main = [[], [1], [3], [5 :: nat]],
           line_collections_runs = [[], [0], [2], [4 :: nat]]\<rparr>"
  have a: "on_legend_click h ''A'' ls = Inr ls" for ls
    by (simp add: on_legend_click_def h_def)
  have b: "on_legend_click h ''B'' ls
      = Inr (toggle_lines (3 / 10) [2] (toggle_lines 1 [3] ls))" for ls
    by (simp add: on_legend_click_def h_def)
  show ?thesis
    using plot_ex_tree_dup a b unfolding h_def by simp
qed

section \<open>Properties of the mean curve\<close>

lemma column_length:
  assumes "column name df = Inr xcol"
  shows "length xcol = length df"
  using assms by (auto simp: column_def split: if_splits)

text \<open>The loop collects the value column of every frame, and an x column of the same
  length.\<close>

lemma plot_runs_values:
  assumes "plot_runs p idx dfs rl vals xs ls = Inr (rl', vals', xs', ls')"
  shows "vals' = vals @ map (map value_col) dfs \<and>
         map length xs' = map length xs @ map length dfs"
  using assms
proof (induction dfs arbitrary: rl vals xs ls)
  case Nil
  then show ?case by simp
next
  case (Cons df dfs)
  from Cons.prems obtain xcol where xcol: "column (x_axis p) df = Inr xcol"
    by (auto simp: Let_def split: sum.splits)
  have len: "length xcol = length df" by (rule column_length[OF xcol])
  show ?case
  proof (cases "plot_mean_only p")
    case True
    with Cons.prems xcol have
      "plot_runs p idx dfs rl (vals @ [take (length df) (map value_col df)])
         (xs @ [take (length df) xcol]) ls = Inr (rl', vals', xs', ls')"
      by (simp add: Let_def)
    from Cons.IH[OF this] len show ?thesis by simp
  next
    case False
    with Cons.prems xcol have
      "plot_runs p idx dfs (rl @ [length ls]) (vals @ [take (length df) (map value_col df)])
         (xs @ [take (length df) xcol])
         (ls @ [\<lparr>xdata = take (length df) xcol, ydata = take (length df) (map value_col df),
                 line_label = [], color = idx mod n_colors, line_alpha = 3 / 10,
                 linewidth = 1\<rparr>]) = Inr (rl', vals', xs', ls')"
      by (simp add: Let_def)
    from Cons.IH[OF this] len show ?thesis by simp
  qed
qed

lemma foldr_max_ge: "n \<in> set ns \<Longrightarrow> n \<le> foldr max ns (0::nat)"
  by (induction ns) auto

text \<open>The entries present in row \<open>i\<close> are those of the frames with more than \<open>i\<close> rows.\<close>

lemma present_values:
  "[c ! i. c \<leftarrow> map (map value_col) dfs, i < length c]
     = map (\<lambda>df. value_col (df ! i)) (filter (\<lambda>df. i < length df) dfs)"
  by (induction dfs) simp_all

lemma row_mean_frames:
  "row_mean (map (map value_col) dfs) i
     = (\<Sum>df\<leftarrow>filter (\<lambda>df. i < length df) dfs. value_col (df ! i))
         / real (length (filter (\<lambda>df. i < length df) dfs))"
  unfolding row_mean_def Let_def present_values by (simp add: comp_def)

lemma mean_curve_values:
  assumes "dfs \<noteq> []" "map length xs = map length dfs"
  shows "length (snd (mean_curve xs (map (map value_col) dfs))) = length (last dfs)"
    and "i < length (last dfs) \<Longrightarrow>
           snd (mean_curve xs (map (map value_col) dfs)) ! i
             = row_mean (map (map value_col) dfs) i"
proof -
  have xs: "xs \<noteq> []" using assms by auto
  have "length (last xs) = last (map length xs)" using xs by (simp add: last_map)
  also have "\<dots> = length (last dfs)" using assms by (simp add: last_map)
  finally have lx: "length (last xs) = length (last dfs)" .
  have "length (last dfs) \<in> set (map length (map (map value_col) dfs))"
    using assms(1) by (auto simp: comp_def)
  then have le: "length (last dfs) \<le> foldr max (map length (map (map value_col) dfs)) 0"
    by (rule foldr_max_ge)
  then have m: "min (length (last xs)) (length (concat_mean (map (map value_col) dfs)))
      = length (last dfs)"
    using lx by (simp add: concat_mean_def)
  show "length (snd (mean_curve xs (map (map value_col) dfs))) = length (last dfs)"
    using m by (simp add: mean_curve_def Let_def)
  show "snd (mean_curve xs (map (map value_col) dfs)) ! i
             = row_mean (map (map value_col) dfs) i" if "i < length (last dfs)"
  proof -
    have "i < foldr max (map length (map (map value_col) dfs)) 0" using that le by simp
    then have "concat_mean (map (map value_col) dfs) ! i = row_mean (map (map value_col) dfs) i"
      by (simp add: concat_mean_def del: upt_Suc)
    then show ?thesis using m that by (simp add: mean_curve_def Let_def)
  qed
qed

text \<open>
  C1, amended. For a version with at least one run with data, the mean line drawn by
  \<open>_plot_versions\<close> carries the version's alias, has as many points as the frame of the last
  run, and its value at each position is the average of the values at that position over
  the frames that have that position; so it is never longer than the longest frame, and
  when all frames have the same number of rows it is the elementwise average across all of
  them.
\<close>

theorem mean_curve_shape:
  assumes "plot_version p idx vd (main, runs, legend, ls) = Inr (main', runs', legend', ls')"
    "run_dataframes vd \<noteq> []"
  shows "line_label (last ls') = vd_alias vd \<and>
         length (ydata (last ls')) = length (last (run_dataframes vd)) \<and>
         length (ydata (last ls')) \<le> foldr max (map length (run_dataframes vd)) 0 \<and>
         (\<forall>i<length (ydata (last ls')).
            ydata (last ls') ! i
              = (\<Sum>df\<leftarrow>filter (\<lambda>df. i < length df) (run_dataframes vd). value_col (df ! i))
                  / real (length (filter (\<lambda>df. i < length df) (run_dataframes vd)))) \<and>
         ((\<forall>df\<in>set (run_dataframes vd). length df = length (last (run_dataframes vd))) \<longrightarrow>
            (\<forall>i<length (ydata (last ls')).
               ydata (last ls') ! i
                 = (\<Sum>df\<leftarrow>run_dataframes vd. value_col (df ! i))
                     / real (length (run_dataframes vd))))"
proof -
  define dfs where "dfs = run_dataframes vd"
  have ne: "dfs \<noteq> []" using assms(2) by (simp add: dfs_def)
  from assms(1) obtain rl vals xs ls1 where
    pr: "plot_runs p idx dfs [] [] [] ls = Inr (rl, vals, xs, ls1)"
    by (auto simp: plot_version_def dfs_def split: sum.splits)
  from plot_runs_values[OF pr] have
    vals: "vals = map (map value_col) dfs" and xs: "map length xs = map length dfs"
    by simp_all
  define y where "y = snd (mean_curve xs vals)"
  from assms(1) pr ne have ls': "ls' = ls1 @ [\<lparr>xdata = fst (mean_curve xs vals), ydata = y,
      line_label = vd_alias vd, color = idx mod n_colors, line_alpha = 1, linewidth = 2\<rparr>]"
    by (auto simp: plot_version_def dfs_def[symmetric] y_def Let_def split: prod.splits)
  have last: "ydata (last ls') = y" "line_label (last ls') = vd_alias vd"
    by (simp_all add: ls')
  note mc = mean_curve_values[OF ne xs, folded vals y_def]
  have nth: "y ! i = (\<Sum>df\<leftarrow>filter (\<lambda>df. i < length df) dfs. value_col (df ! i))
                  / real (length (filter (\<lambda>df. i < length df) dfs))" if "i < length y" for i
    using mc(2)[of i] that mc(1) by (simp add: vals row_mean_frames)
  have "length (last dfs) \<in> set (map length dfs)" using ne by simp
  then have le: "length y \<le> foldr max (map length dfs) 0"
    unfolding mc(1) by (rule foldr_max_ge)
  have same: "y ! i = (\<Sum>df\<leftarrow>dfs. value_col (df ! i)) / real (length dfs)"
    if "\<forall>df\<in>set dfs. length df = length (last dfs)" "i < length y" for i
  proof -
    have "filter (\<lambda>df. i < length df) dfs = dfs"
      using that mc(1) by (simp add: filter_id_conv)
    with nth[OF that(2)] show ?thesis by simp
  qed
  show ?thesis
    unfolding last dfs_def[symmetric] using mc(1) le nth same by blast
qed

theorem mean_curve_shape_witness:
  "(\<exists>main runs legend ls.
     plot_version ex_plotter 0 ex_version_759 ([], [], [], []) = Inr (main, runs, legend, ls) \<and>
     run_dataframes ex_version_759 \<noteq> [] \<and>
     length (last (run_dataframes ex_version_759)) = 9 \<and>
     line_label (last ls) = ''v'' \<and>
     ydata (last ls) = [2, 2, 2, 2, 2, 2, 2, 3, 3] \<and>
     length (ydata (last ls)) = length (last (run_dataframes ex_version_759))) \<and>
   (\<exists>main runs legend ls.
     plot_version ex_plotter 0 ex_version_33 ([], [], [], []) = Inr (main, runs, legend, ls) \<and>
     run_dataframes ex_version_33 \<noteq> [] \<and>
     list_all (\<lambda>df. length df = length (last (run_dataframes ex_version_33)))
       (run_dataframes ex_version_33) \<and>
     ydata (last ls) = [2, 2, 2] \<and>
     list_all (\<lambda>i. ydata (last ls) ! i
         = (\<Sum>df\<leftarrow>run_dataframes ex_version_33. value_col (df ! i))
             / real (length (run_dataframes ex_version_33))) [0, 1, 2])"
proof -
  have "\<exists>main runs legend ls.
     plot_version ex_plotter 0 ex_version_759 ([], [], [], []) = Inr (main, runs, legend, ls) \<and>
     ydata (last ls) = [2, 2, 2, 2, 2, 2, 2, 3, 3]"
  proof -
    have "case plot_version ex_plotter 0 ex_version_759 ([], [], [], []) of
        Inl e \<Rightarrow> False
      | Inr st \<Rightarrow> ydata (last (snd (snd (snd st)))) = [2, 2, 2, 2, 2, 2, 2, 3, 3]"
      by code_simp
    then show ?thesis by (auto split: sum.splits)
  qed
  then obtain main runs legend ls where
    pv: "plot_version ex_plotter 0 ex_version_759 ([], [], [], []) = Inr (main, runs, legend, ls)"
    and y: "ydata (last ls) = [2, 2, 2, 2, 2, 2, 2, 3, 3]"
    by blast
  have ne: "run_dataframes ex_version_759 \<noteq> []" by (simp add: ex_version_759_def)
  have n9: "length (last (run_dataframes ex_version_759)) = 9"
    by (simp add: ex_version_759_def ex_frame_def)
  from mean_curve_shape[OF pv ne] have
    "line_label (last ls) = vd_alias ex_version_759"
    "length (ydata (last ls)) = length (last (run_dataframes ex_version_759))"
    by simp_all
  then have "line_label (last ls) = ''v''"
    "length (ydata (last ls)) = length (last (run_dataframes ex_version_759))"
    by (simp_all add: ex_version_759_def)
  with pv ne n9 y have first: "\<exists>main runs legend ls.
     plot_version ex_plotter 0 ex_version_759 ([], [], [], []) = Inr (main, runs, legend, ls) \<and>
     run_dataframes ex_version_759 \<noteq> [] \<and>
     length (last (run_dataframes ex_version_759)) = 9 \<and>
     line_label (last ls) = ''v'' \<and>
     ydata (last ls) = [2, 2, 2, 2, 2, 2, 2, 3, 3] \<and>
     length (ydata (last ls)) = length (last (run_dataframes ex_version_759))"
    by blast
  have "\<exists>main runs legend ls.
     plot_version ex_plotter 0 ex_version_33 ([], [], [], []) = Inr (main, runs, legend, ls) \<and>
     ydata (last ls) = [2, 2, 2]"
  proof -
    have "case plot_version ex_plotter 0 ex_version_33 ([], [], [], []) of
        Inl e \<Rightarrow> False
      | Inr st \<Rightarrow> ydata (last (snd (snd (snd st)))) = [2, 2, 2]"
      by code_simp
    then show ?thesis by (auto split: sum.splits)
  qed
  then obtain main2 runs2 legend2 ls2 where
    pv2: "plot_version ex_plotter 0 ex_version_33 ([], [], [], [])
            = Inr (main2, runs2, legend2, ls2)"
    and y2: "ydata (last ls2) = [2, 2, 2]"
    by blast
  have ne2: "run_dataframes ex_version_33 \<noteq> []" by (simp add: ex_version_33_def)
  have eq2: "\<forall>df\<in>set (run_dataframes ex_version_33).
      length df = length (last (run_dataframes ex_version_33))"
    by (simp add: ex_version_33_def ex_frame_def)
  from mean_curve_shape[OF pv2 ne2] eq2 have
    "\<forall>i<length (ydata (last ls2)). ydata (last ls2) ! i
        = (\<Sum>df\<leftarrow>run_dataframes ex_version_33. value_col (df ! i))
             / real (length (run_dataframes ex_version_33))"
    by blast
  then have q: "ydata (last ls2) ! i
        = (\<Sum>df\<leftarrow>run_dataframes ex_version_33. value_col (df ! i))
             / real (length (run_dataframes ex_version_33))" if "i < 3" for i
    using y2 that by simp
  have avg: "list_all (\<lambda>i. ydata (last ls2) ! i
         = (\<Sum>df\<leftarrow>run_dataframes ex_version_33. value_col (df ! i))
             / real (length (run_dataframes ex_version_33))) [0, 1, 2]"
    using q[of 0] q[of 1] q[of 2] by simp
  have "list_all (\<lambda>df. length df = length (last (run_dataframes ex_version_33)))
       (run_dataframes ex_version_33)"
    using eq2 by (simp add: list_all_iff)
  with pv2 ne2 y2 avg have second: "\<exists>main runs legend ls.
     plot_version ex_plotter 0 ex_version_33 ([], [], [], []) = Inr (main, runs, legend, ls) \<and>
     run_dataframes ex_version_33 \<noteq> [] \<and>
     list_all (\<lambda>df. length df = length (last (run_dataframes ex_version_33)))
       (run_dataframes ex_version_33) \<and>
     ydata (last ls) = [2, 2, 2] \<and>
     list_all (\<lambda>i. ydata (last ls) ! i
         = (\<Sum>df\<leftarrow>run_dataframes ex_version_33. value_col (df ! i))
             / real (length (run_dataframes ex_version_33))) [0, 1, 2]"
    by blast
  from first second show ?thesis by (rule conjI)
qed

text \<open>
  C1 as stated fails: for runs of 7, 5 and 9 rows, drawn in that order, the mean line has 9
  points, more than the 5 rows of the shortest run.
\<close>

theorem mean_curve_not_shortest:
  "map length (run_dataframes ex_version_759) = [7, 5, 9] \<and>
   (\<exists>main runs legend ls.
      plot_version ex_plotter 0 ex_version_759 ([], [], [], []) = Inr (main, runs, legend, ls) \<and>
      length (ydata (last ls)) = 9 \<and> \<not> length (ydata (last ls)) \<le> 5)"
proof -
  have l: "map length (run_dataframes ex_version_759) = [7, 5, 9]"
    by (simp add: ex_version_759_def ex_frame_def)
  have "case plot_version ex_plotter 0 ex_version_759 ([], [], [], []) of
        Inl e \<Rightarrow> False
      | Inr st \<Rightarrow> length (ydata (last (snd (snd (snd st))))) = 9"
    by code_simp
  then have "\<exists>main runs legend ls.
      plot_version ex_plotter 0 ex_version_759 ([], [], [], []) = Inr (main, runs, legend, ls) \<and>
      length (ydata (last ls)) = 9 \<and> \<not> length (ydata (last ls)) \<le> 5"
    by (auto split: sum.splits)
  with l show ?thesis by blast
qed

section \<open>Failures of the whole run\<close>


















end
